theory Spec2Isabelle
  imports Complex_Main "HOL-Library.AList"
begin

section \<open>Strings\<close>

text \<open>
  A JavaScript string is a sequence of UTF-16 code units. The model uses \<^typ>\<open>string\<close>;
  one \<^typ>\<open>char\<close> stands for one code unit in the range 0..255. Code units above 255
  are outside the model.

  \<^verbatim>\<open>String.prototype.trim\<close> removes WhiteSpace and LineTerminator code points from both
  ends. Those below 256 are TAB, LF, VT, FF, CR, SPACE and NBSP.
\<close>

definition isWhiteSpace :: "char \<Rightarrow> bool" where
  "isWhiteSpace c \<longleftrightarrow>
     c \<in> set [CHR 0x09, CHR 0x0A, CHR 0x0B, CHR 0x0C, CHR 0x0D, CHR 0x20, CHR 0xA0]"

definition trim :: "string \<Rightarrow> string" where
  "trim s = rev (dropWhile isWhiteSpace (rev (dropWhile isWhiteSpace s)))"

text \<open>
  Both splitters build the result from the right: \<open>push_char c ps\<close> puts \<open>c\<close> in front of
  the first piece. A split never returns the empty array, so the \<open>[]\<close> case is only there
  to make the function total.
\<close>

fun push_char :: "char \<Rightarrow> string list \<Rightarrow> string list" where
  "push_char c [] = [[c]]"
| "push_char c (p # ps) = (c # p) # ps"

text \<open>\<^verbatim>\<open>s.split(",")\<close>: split at every occurrence of a one-character separator.\<close>

fun split_on :: "char \<Rightarrow> string \<Rightarrow> string list" where
  "split_on sep [] = [[]]"
| "split_on sep (c # cs) =
     (if c = sep then [] # split_on sep cs else push_char c (split_on sep cs))"

text \<open>
  \<^verbatim>\<open>s.split(/\r?\n/)\<close>: split at every LF, and at every CR LF pair; a CR that is not
  followed by LF stays in its piece.
\<close>

fun split_lines :: "string \<Rightarrow> string list" where
  "split_lines [] = [[]]"
| "split_lines [c] = (if c = CHR 0x0A then [[], []] else [[c]])"
| "split_lines (c # d # cs) =
     (if c = CHR 0x0A then [] # split_lines (d # cs)
      else if c = CHR 0x0D \<and> d = CHR 0x0A then [] # split_lines cs
      else push_char c (split_lines (d # cs)))"

text \<open>Decimal rendering of a non-negative integer, as in a template literal.\<close>

definition digit_char :: "nat \<Rightarrow> char" where
  "digit_char d = ''0123456789'' ! d"

fun string_of_nat :: "nat \<Rightarrow> string" where
  "string_of_nat n =
     (if n < 10 then [digit_char n] else string_of_nat (n div 10) @ [digit_char (n mod 10)])"

section \<open>JSON values and objects\<close>

text \<open>
  The values \<^verbatim>\<open>JSON.parse\<close> can produce, and \<^verbatim>\<open>undefined\<close>. A number is given by its
  value. An object is the list of its own properties in insertion order; reading a
  property looks the name up from the left. Only own properties are modelled: the names
  this program reads (the record fields, \<^verbatim>\<open>rows\<close> and the index \<^verbatim>\<open>0\<close>) are never inherited
  ones.
\<close>

datatype jsval =
    JUndefined
  | JNull
  | JBool bool
  | JNum real
  | JStr string
  | JArr "jsval list"
  | JObj "(string \<times> jsval) list"

type_synonym jsobj = "(string \<times> jsval) list"

text \<open>\<^verbatim>\<open>ToBoolean\<close>: what \<^verbatim>\<open>||\<close>, \<^verbatim>\<open>!\<close> and \<^verbatim>\<open>filter(Boolean)\<close> test.\<close>

fun truthy :: "jsval \<Rightarrow> bool" where
  "truthy JUndefined = False"
| "truthy JNull = False"
| "truthy (JBool b) = b"
| "truthy (JNum x) = (x \<noteq> 0)"
| "truthy (JStr s) = (s \<noteq> [])"
| "truthy (JArr xs) = True"
| "truthy (JObj ps) = True"

text \<open>\<^verbatim>\<open>a || b\<close> on values (evaluating \<open>b\<close> has no effect in this program).\<close>

definition js_or :: "jsval \<Rightarrow> jsval \<Rightarrow> jsval" where
  "js_or a b = (if truthy a then a else b)"

fun nullish :: "jsval \<Rightarrow> bool" where
  "nullish JUndefined = True"
| "nullish JNull = True"
| "nullish v = False"

text \<open>Exceptions, by constructor and message.\<close>

datatype exn = Error string | TypeError string | SyntaxError string

fun message :: "exn \<Rightarrow> string" where
  "message (Error m) = m"
| "message (TypeError m) = m"
| "message (SyntaxError m) = m"

text \<open>
  The own properties that an object spread \<^verbatim>\<open>{...r}\<close> copies: those of an object, the
  indexed elements of an array, the indexed characters of a string, and nothing for the
  other values (also for \<^verbatim>\<open>null\<close> and \<^verbatim>\<open>undefined\<close>, which a spread accepts).
\<close>

definition indexed :: "'a list \<Rightarrow> (string \<times> 'a) list" where
  "indexed xs = map (\<lambda>(i, x). (string_of_nat i, x)) (enumerate 0 xs)"

fun own_props :: "jsval \<Rightarrow> jsobj" where
  "own_props (JObj ps) = ps"
| "own_props (JArr xs) = indexed xs"
| "own_props (JStr s) = indexed (map (\<lambda>c. JStr [c]) s)"
| "own_props v = []"

text \<open>
  \<^verbatim>\<open>r.k\<close> on a value that is neither \<^verbatim>\<open>null\<close> nor \<^verbatim>\<open>undefined\<close>: the own property, or
  \<^verbatim>\<open>undefined\<close>. (On \<^verbatim>\<open>null\<close> and \<^verbatim>\<open>undefined\<close> the read throws; the callers test
  \<^const>\<open>nullish\<close> first.)
\<close>

definition get_field :: "jsobj \<Rightarrow> string \<Rightarrow> jsval" where
  "get_field ps k = (case map_of ps k of None \<Rightarrow> JUndefined | Some v \<Rightarrow> v)"

definition get_prop :: "jsval \<Rightarrow> string \<Rightarrow> jsval" where
  "get_prop r k = get_field (own_props r) k"

text \<open>
  A property of an object literal, written after a spread: it replaces the value of a
  name that the spread copied and is added at the end otherwise.
\<close>

definition set_field :: "string \<Rightarrow> jsval \<Rightarrow> jsobj \<Rightarrow> jsobj" where
  "set_field k v ps = AList.update k v ps"

section \<open>The row normalizer\<close>

text \<open>The repository holds two versions of the page; both are modelled.\<close>

datatype variant = Earlier | Later

text \<open>
  The arrow function that \<^verbatim>\<open>normalizeRows\<close> maps over the rows. The spread accepts any
  value, the first property read throws on \<^verbatim>\<open>null\<close> and \<^verbatim>\<open>undefined\<close>.

  Earlier version:
  \<^verbatim>\<open>Description_Short: r.Brief_Description || r.Description_Short || ""\<close>,
  \<^verbatim>\<open>Remediation_Steps: r.Remediation_Links || r.Remediation_Steps || ""\<close>.
  Later version:
  \<^verbatim>\<open>Description_Short: r.AI_Brief || r.Brief_Description || ""\<close>,
  \<^verbatim>\<open>Remediation_Steps: r.Remediation_Links || ""\<close>.
  Both: \<^verbatim>\<open>Owner_Suggested: owner || r.Owner_Suggested || ""\<close>.
\<close>

fun description_short :: "variant \<Rightarrow> jsval \<Rightarrow> jsval" where
  "description_short Earlier r =
     js_or (get_prop r ''Brief_Description'') (js_or (get_prop r ''Description_Short'') (JStr ''''))"
| "description_short Later r =
     js_or (get_prop r ''AI_Brief'') (js_or (get_prop r ''Brief_Description'') (JStr ''''))"

fun remediation_steps :: "variant \<Rightarrow> jsval \<Rightarrow> jsval" where
  "remediation_steps Earlier r =
     js_or (get_prop r ''Remediation_Links'') (js_or (get_prop r ''Remediation_Steps'') (JStr ''''))"
| "remediation_steps Later r = js_or (get_prop r ''Remediation_Links'') (JStr '''')"

definition owner_suggested :: "string \<Rightarrow> jsval \<Rightarrow> jsval" where
  "owner_suggested owner r =
     js_or (JStr owner) (js_or (get_prop r ''Owner_Suggested'') (JStr ''''))"

definition normalizeRow :: "variant \<Rightarrow> string \<Rightarrow> jsval \<Rightarrow> exn + jsobj" where
  "normalizeRow v owner r =
     (if nullish r then Inl (TypeError ''Cannot read properties of null or undefined'')
      else Inr (set_field ''Owner_Suggested'' (owner_suggested owner r)
                 (set_field ''Remediation_Steps'' (remediation_steps v r)
                   (set_field ''Description_Short'' (description_short v r)
                     (own_props r)))))"

text \<open>\<^verbatim>\<open>Array.prototype.map\<close> with a callback that may throw: the first throw ends the loop.\<close>

fun map_exn :: "('a \<Rightarrow> exn + 'b) \<Rightarrow> 'a list \<Rightarrow> exn + 'b list" where
  "map_exn f [] = Inr []"
| "map_exn f (x # xs) =
     (case f x of
        Inl e \<Rightarrow> Inl e
      | Inr y \<Rightarrow> (case map_exn f xs of Inl e \<Rightarrow> Inl e | Inr ys \<Rightarrow> Inr (y # ys)))"

text \<open>
  \<^verbatim>\<open>normalizeRows(rows, owner)\<close> is \<^verbatim>\<open>(rows || []).map(...)\<close>: a falsy \<open>rows\<close> is replaced
  by the empty array; a truthy value that is not an array has no callable \<^verbatim>\<open>map\<close>, and
  the call throws.
\<close>

definition normalizeRows :: "variant \<Rightarrow> jsval \<Rightarrow> string \<Rightarrow> exn + jsobj list" where
  "normalizeRows v rows owner =
     (case js_or rows (JArr []) of
        JArr xs \<Rightarrow> map_exn (normalizeRow v owner) xs
      | _ \<Rightarrow> Inl (TypeError ''map is not a function''))"

text \<open>
  The same function with object identity made explicit, for the question whether the
  input records are modified. The heap is the list of all objects allocated so far and
  an address is an index into it; the input array holds the addresses of its records
  (a reference always points to an allocated object). Every evaluation of the object
  literal \<^verbatim>\<open>({...r, ...})\<close> allocates a new object at the end of the heap; nothing in
  the arrow function assigns to \<open>r\<close>.
\<close>

type_synonym addr = nat
type_synonym heap = "jsobj list"

fun normalizeRows_heap :: "variant \<Rightarrow> addr list \<Rightarrow> string \<Rightarrow> heap \<Rightarrow> exn + addr list \<times> heap" where
  "normalizeRows_heap v [] owner h = Inr ([], h)"
| "normalizeRows_heap v (a # as) owner h =
     (case normalizeRow v owner (JObj (h ! a)) of
        Inl e \<Rightarrow> Inl e
      | Inr new \<Rightarrow>
          (case normalizeRows_heap v as owner (h @ [new]) of
             Inl e \<Rightarrow> Inl e
           | Inr (bs, h') \<Rightarrow> Inr (length h # bs, h')))"

section \<open>CSV ingestion\<close>

text \<open>\<^verbatim>\<open>cells[i] ?? ""\<close>: the cell, or the empty string when the row has no cell \<open>i\<close>.\<close>

definition cell_or_empty :: "string list \<Rightarrow> nat \<Rightarrow> string" where
  "cell_or_empty cells i = (if i < length cells then cells ! i else [])"

text \<open>
  \<^verbatim>\<open>headers.forEach((h, i) => (obj[h] = cells[i] ?? ""))\<close> on a fresh object: the
  assignments run from left to right, so a later column of the same name overwrites an
  earlier one. All values are strings, and the record is a map from names to strings.
\<close>

definition make_record :: "string list \<Rightarrow> string list \<Rightarrow> (string \<rightharpoonup> string)" where
  "make_record headers cells =
     fold (\<lambda>(i, h) obj. obj(h \<mapsto> cell_or_empty cells i)) (enumerate 0 headers) Map.empty"

text \<open>
  \<^verbatim>\<open>parseCSV(content)\<close>. The earlier version reads \<^verbatim>\<open>lines[0].split(",")\<close> at once, which
  throws when \<^verbatim>\<open>lines\<close> is empty; the later version returns \<^verbatim>\<open>[]\<close> for an empty \<^verbatim>\<open>lines\<close>
  first.
\<close>

definition parseCSV :: "variant \<Rightarrow> string \<Rightarrow> exn + (string \<rightharpoonup> string) list" where
  "parseCSV v content =
     (case split_lines (trim content) of
        [] \<Rightarrow>
          (case v of
             Earlier \<Rightarrow> Inl (TypeError ''Cannot read properties of undefined'')
           | Later \<Rightarrow> Inr [])
      | l # ls \<Rightarrow>
          (let headers = map trim (split_on (CHR '','') l) in
           Inr (map (\<lambda>line. make_record headers (map trim (split_on (CHR '','') line))) ls)))"

section \<open>Identifier collection\<close>

text \<open>
  \<^verbatim>\<open>Array.from(new Set(xs))\<close>: a \<^verbatim>\<open>Set\<close> keeps its elements in insertion order and
  \<^verbatim>\<open>add\<close> does nothing for an element that is already there.
\<close>

definition set_add :: "'a \<Rightarrow> 'a list \<Rightarrow> 'a list" where
  "set_add x s = (if x \<in> set s then s else s @ [x])"

definition new_Set :: "'a list \<Rightarrow> 'a list" where
  "new_Set xs = fold set_add xs []"

text \<open>
  The free-text path of \<^verbatim>\<open>enrich\<close>:
  \<^verbatim>\<open>text.split(/\r?\n/).map((l) => l.trim()).filter(Boolean)\<close>.
\<close>

definition text_cves :: "string \<Rightarrow> string list" where
  "text_cves t = filter (\<lambda>l. l \<noteq> []) (map trim (split_lines t))"

text \<open>
  The CSV path of \<^verbatim>\<open>onUploadCSV\<close>:
  \<^verbatim>\<open>Array.from(new Set(parsed.map((r) => (r.CVE_ID || "").trim()).filter(Boolean)))\<close>.
\<close>

definition cve_id :: "(string \<rightharpoonup> string) \<Rightarrow> string" where
  "cve_id r = trim (case r ''CVE_ID'' of None \<Rightarrow> [] | Some s \<Rightarrow> if s \<noteq> [] then s else [])"

definition csv_cves :: "(string \<rightharpoonup> string) list \<Rightarrow> string list" where
  "csv_cves parsed = new_Set (filter (\<lambda>s. s \<noteq> []) (map cve_id parsed))"

section \<open>The page and its two handlers\<close>

text \<open>
  The request of \<^verbatim>\<open>fetch(`${API}/enrich`, {method: "POST", ..., body: JSON.stringify({ cves })})\<close>,
  and what the environment answers. A promise either resolves or rejects.
\<close>

record request =
  url :: string
  cves :: "string list"

datatype 'a promise = Resolves 'a | Rejects exn

record response =
  status :: nat
  statusText :: string
  res_text :: "string promise"
  res_json :: "jsval promise"

text \<open>\<^verbatim>\<open>res.ok\<close>: the status is in the range 200 to 299.\<close>

definition ok :: "response \<Rightarrow> bool" where
  "ok res \<longleftrightarrow> 200 \<le> status res \<and> status res \<le> 299"

text \<open>
  The environment of a handler call: the build-time value \<^verbatim>\<open>import.meta.env.VITE_API_URL\<close>
  (\<open>None\<close> when undefined) and the answer of the network to a request.
\<close>

record env =
  API :: "string option"
  fetch :: "request \<Rightarrow> response promise"

datatype log_entry = LogError exn | LogSample jsval

text \<open>
  The state of the page: the four \<^verbatim>\<open>useState\<close> cells, the value of the file input behind
  \<^verbatim>\<open>fileRef\<close> (\<open>None\<close> when the ref is empty), and what the handlers have done so far:
  the alerts shown, the console lines written and the requests issued.
\<close>

record app =
  text_value :: string
  rows :: "jsobj list"
  loading :: bool
  owner :: string
  file_value :: "string option"
  alerts :: "string list"
  console :: "log_entry list"
  requests :: "request list"

definition alert :: "string \<Rightarrow> app \<Rightarrow> app" where
  "alert m st = st\<lparr>alerts := alerts st @ [m]\<rparr>"

text \<open>\<^verbatim>\<open>!API\<close>: the value is undefined or the empty string.\<close>

definition api_unset :: "string option \<Rightarrow> bool" where
  "api_unset a = (case a of None \<Rightarrow> True | Some u \<Rightarrow> u = [])"

text \<open>\<^verbatim>\<open>`${API}/enrich`\<close>.\<close>

definition enrich_url :: "string option \<Rightarrow> string" where
  "enrich_url a = (case a of None \<Rightarrow> ''undefined'' | Some u \<Rightarrow> u) @ ''/enrich''"

fun api_unset_message :: "variant \<Rightarrow> string" where
  "api_unset_message Earlier = ''VITE_API_URL is not set in your Netlify env.''"
| "api_unset_message Later = ''VITE_API_URL is not set.''"

fun no_cve_id_message :: "variant \<Rightarrow> string" where
  "no_cve_id_message Earlier =
     ''No CVE_ID values found in the CSV (need a '' @ [CHR 0x27] @ ''CVE_ID'' @ [CHR 0x27] @ '' column).''"
| "no_cve_id_message Later = ''No CVE_ID values found in CSV.''"

text \<open>
  \<^verbatim>\<open>const t = await res.text().catch(() => "");\<close>
  \<^verbatim>\<open>throw new Error(`Backend error ${res.status}: ${t || res.statusText}`);\<close>
\<close>

definition backend_error :: "response \<Rightarrow> exn" where
  "backend_error res =
     (let t = (case res_text res of Resolves s \<Rightarrow> s | Rejects e \<Rightarrow> []) in
      Error (''Backend error '' @ string_of_nat (status res) @ '': '' @
             (if t \<noteq> [] then t else statusText res)))"

text \<open>\<^verbatim>\<open>data?.rows?.[0]\<close>, the value that the later \<^verbatim>\<open>enrich\<close> writes to the console.\<close>

definition row_sample :: "jsval \<Rightarrow> jsval" where
  "row_sample data =
     (if nullish data then JUndefined
      else if nullish (get_prop data ''rows'') then JUndefined
      else get_prop (get_prop data ''rows'') ''0'')"

text \<open>
  The statements after the \<^verbatim>\<open>fetch\<close>, which the two handlers share word for word (only
  the later \<^verbatim>\<open>enrich\<close> has the \<^verbatim>\<open>console.log\<close>, the flag \<open>sample\<close>): the check of \<^verbatim>\<open>res.ok\<close>,
  \<^verbatim>\<open>res.json()\<close>, \<^verbatim>\<open>normalizeRows(data.rows, owner)\<close> and \<^verbatim>\<open>setRows(enriched)\<close>. The
  result is the exception thrown, if any, and the state reached.
\<close>

definition show_response :: "variant \<Rightarrow> bool \<Rightarrow> response \<Rightarrow> app \<Rightarrow> exn option \<times> app" where
  "show_response v sample res st =
     (if \<not> ok res then (Some (backend_error res), st)
      else
        (case res_json res of
           Rejects e \<Rightarrow> (Some e, st)
         | Resolves data \<Rightarrow>
             (let st1 = (if sample then st\<lparr>console := console st @ [LogSample (row_sample data)]\<rparr>
                         else st)
              in if nullish data
                 then (Some (TypeError ''Cannot read properties of null (reading rows)''), st1)
                 else
                   (case normalizeRows v (get_prop data ''rows'') (owner st) of
                      Inl e \<Rightarrow> (Some e, st1)
                    | Inr enriched \<Rightarrow> (None, st1\<lparr>rows := enriched\<rparr>)))))"

text \<open>
  The guards and the request, after the identifiers are computed: an empty list and an
  unset \<^verbatim>\<open>API\<close> each end the handler with one alert, before any \<^verbatim>\<open>fetch\<close>.
\<close>

definition submit :: "variant \<Rightarrow> bool \<Rightarrow> string \<Rightarrow> env \<Rightarrow> string list \<Rightarrow> app \<Rightarrow> exn option \<times> app" where
  "submit v sample empty_message e ids st =
     (if ids = [] then (None, alert empty_message st)
      else if api_unset (API e) then (None, alert (api_unset_message v) st)
      else
        (let req = \<lparr>url = enrich_url (API e), cves = ids\<rparr>;
             st1 = st\<lparr>requests := requests st @ [req]\<rparr>
         in case fetch e req of
              Rejects x \<Rightarrow> (Some x, st1)
            | Resolves res \<Rightarrow> show_response v sample res st1))"

text \<open>
  \<^verbatim>\<open>catch (e) { console.error(e); alert(e.message || fallback); }\<close>
\<close>

definition catch :: "string \<Rightarrow> exn option \<times> app \<Rightarrow> app" where
  "catch fallback r =
     (case r of
        (None, st) \<Rightarrow> st
      | (Some x, st) \<Rightarrow>
          alert (if message x \<noteq> [] then message x else fallback)
            (st\<lparr>console := console st @ [LogError x]\<rparr>))"

text \<open>\<^verbatim>\<open>enrich\<close>: the handler of the button, on the text area's content.\<close>

definition enrich :: "variant \<Rightarrow> env \<Rightarrow> app \<Rightarrow> app" where
  "enrich v e st =
     (let st1 = st\<lparr>loading := True\<rparr>;
          st2 = catch ''Failed to enrich CVEs''
                  (submit v (v = Later)
                     ''Please paste at least one CVE (e.g., CVE-2021-44228).''
                     e (text_cves (text_value st)) st1)
      in st2\<lparr>loading := False\<rparr>)"

text \<open>
  \<^verbatim>\<open>onUploadCSV\<close>: the handler of the file input. \<open>file\<close> is \<^verbatim>\<open>e.target.files?.[0]\<close>, given by
  the outcome of its \<^verbatim>\<open>text()\<close>; with no file the handler returns at once.
\<close>

definition upload_try :: "variant \<Rightarrow> env \<Rightarrow> string promise \<Rightarrow> app \<Rightarrow> exn option \<times> app" where
  "upload_try v e file st =
     (case file of
        Rejects x \<Rightarrow> (Some x, st)
      | Resolves txt \<Rightarrow>
          (case parseCSV v txt of
             Inl x \<Rightarrow> (Some x, st)
           | Inr parsed \<Rightarrow> submit v False (no_cve_id_message v) e (csv_cves parsed) st))"

definition onUploadCSV :: "variant \<Rightarrow> env \<Rightarrow> string promise option \<Rightarrow> app \<Rightarrow> app" where
  "onUploadCSV v e file st =
     (case file of
        None \<Rightarrow> st
      | Some f \<Rightarrow>
          (let st2 = catch ''Failed to enrich CVEs from CSV'' (upload_try v e f st)
           in st2\<lparr>file_value := map_option (\<lambda>_. []) (file_value st2)\<rparr>))"

section \<open>Notions used in the statements\<close>

text \<open>
  The first value of a list that is not empty in the sense of \<^verbatim>\<open>||\<close> (that is, truthy),
  and the empty string when there is none: the meaning of a chain
  \<^verbatim>\<open>a || b || ... || ""\<close>.
\<close>

fun first_nonempty :: "jsval list \<Rightarrow> jsval" where
  "first_nonempty [] = JStr ''''"
| "first_nonempty (x # xs) = (if truthy x then x else first_nonempty xs)"

text \<open>
  The lines of a CSV text as \<^verbatim>\<open>parseCSV\<close> sees them, its header names and its data
  lines (the locals \<^verbatim>\<open>lines\<close>, \<^verbatim>\<open>headers\<close> and \<^verbatim>\<open>lines.slice(1)\<close>).
\<close>

definition csv_lines :: "string \<Rightarrow> string list" where
  "csv_lines content = split_lines (trim content)"

definition csv_headers :: "string \<Rightarrow> string list" where
  "csv_headers content =
     (case csv_lines content of [] \<Rightarrow> [] | l # ls \<Rightarrow> map trim (split_on (CHR '','') l))"

definition csv_data_lines :: "string \<Rightarrow> string list" where
  "csv_data_lines content = (case csv_lines content of [] \<Rightarrow> [] | l # ls \<Rightarrow> ls)"

text \<open>
  Inputs for the examples: a page that shows one record from an earlier submission and
  whose text area holds four lines (a repeated identifier, a blank line, an identifier
  with spaces around it); a backend that answers every request with status 500; a build
  without \<^verbatim>\<open>VITE_API_URL\<close>; a backend whose answer is the JSON object \<^verbatim>\<open>{}\<close>.
\<close>

definition page_with_results :: app where
  "page_with_results =
     \<lparr>text_value = ''CVE-2021-44228\<newline>CVE-2021-44228\<newline>\<newline> CVE-2023-4863 '',
      rows = [[(''CVE_ID'', JStr ''CVE-2024-3094'')]],
      loading = False,
      owner = '''',
      file_value = Some ''cves.csv'',
      alerts = [],
      console = [],
      requests = []\<rparr>"

definition failing_backend :: env where
  "failing_backend =
     \<lparr>API = Some ''https://api.example'',
      fetch = (\<lambda>req. Resolves \<lparr>status = 500, statusText = ''Internal Server Error'',
                 res_text = Resolves ''boom'', res_json = Rejects (SyntaxError ''Unexpected token'')\<rparr>)\<rparr>"

definition unconfigured :: env where
  "unconfigured =
     \<lparr>API = None, fetch = (\<lambda>req. Rejects (TypeError ''Failed to fetch''))\<rparr>"

definition rowless_backend :: env where
  "rowless_backend =
     \<lparr>API = Some ''https://api.example'',
      fetch = (\<lambda>req. Resolves \<lparr>status = 200, statusText = ''OK'',
                 res_text = Resolves ''{}'', res_json = Resolves (JObj [])\<rparr>)\<rparr>"

section \<open>Strings and collections: basic facts\<close>

lemma push_char_not_Nil: "push_char c ps \<noteq> []"
  by (cases ps) simp_all

lemma split_lines_not_Nil: "split_lines s \<noteq> []"
  by (induction s rule: split_lines.induct) (simp_all add: push_char_not_Nil)

lemma split_on_not_Nil: "split_on sep s \<noteq> []"
  by (induction s) (simp_all add: push_char_not_Nil)

lemma dropWhile_fixed: "xs = [] \<or> \<not> P (hd xs) \<Longrightarrow> dropWhile P xs = xs"
  by (cases xs) auto

lemma last_dropWhile: "dropWhile P xs \<noteq> [] \<Longrightarrow> last (dropWhile P xs) = last xs"
  by (induction xs) (auto split: if_splits)

lemma trim_trim: "trim (trim s) = trim s"
proof -
  define d where "d = dropWhile isWhiteSpace s"
  define t where "t = rev (dropWhile isWhiteSpace (rev d))"
  have t: "trim s = t" by (simp add: trim_def d_def t_def)
  have "t = [] \<or> \<not> isWhiteSpace (hd t)"
  proof (cases "t = []")
    case False
    then have ne: "dropWhile isWhiteSpace (rev d) \<noteq> []" by (simp add: t_def)
    then have dne: "d \<noteq> []" by auto
    have "hd t = last (dropWhile isWhiteSpace (rev d))"
      using ne by (simp add: t_def hd_rev)
    also have "\<dots> = last (rev d)" using ne by (rule last_dropWhile)
    also have "\<dots> = hd d" using dne by (simp add: last_rev)
    finally have "hd t = hd d" .
    moreover have "\<not> isWhiteSpace (hd d)"
      using dne unfolding d_def by (rule hd_dropWhile)
    ultimately show ?thesis by simp
  qed simp
  then have "dropWhile isWhiteSpace t = t" by (rule dropWhile_fixed)
  then have "trim t = rev (dropWhile isWhiteSpace (rev t))" by (simp add: trim_def)
  also have "\<dots> = t" by (simp add: t_def)
  finally show ?thesis by (simp add: t)
qed


lemma trim_Nil: "trim [] = []"
  by (simp add: trim_def)

lemma fold_set_add:
  "distinct acc \<Longrightarrow> distinct (fold set_add xs acc) \<and> set (fold set_add xs acc) = set acc \<union> set xs"
  by (induction xs arbitrary: acc) (auto simp: set_add_def)

lemma distinct_new_Set: "distinct (new_Set xs)"
  using fold_set_add[of "[]" xs] by (simp add: new_Set_def)

lemma set_new_Set: "set (new_Set xs) = set xs"
  using fold_set_add[of "[]" xs] by (simp add: new_Set_def)

section \<open>CSV records: basic facts\<close>

lemma make_record_snoc:
  "make_record (hs @ [h]) cells = (make_record hs cells)(h \<mapsto> cell_or_empty cells (length hs))"
  by (simp add: make_record_def enumerate_append_eq)



lemma make_record_last:
  "i < length hs \<Longrightarrow> \<forall>j. i < j \<and> j < length hs \<longrightarrow> hs ! j \<noteq> hs ! i
     \<Longrightarrow> make_record hs cells (hs ! i) = Some (cell_or_empty cells i)"
proof (induction hs rule: rev_induct)
  case Nil
  then show ?case by simp
next
  case (snoc h hs)
  show ?case
  proof (cases "i = length hs")
    case True
    then show ?thesis by (simp add: make_record_snoc)
  next
    case False
    with snoc.prems(1) have i: "i < length hs" by simp
    have "(hs @ [h]) ! length hs \<noteq> (hs @ [h]) ! i"
      using snoc.prems(2) i by (metis length_append_singleton lessI)
    then have neq: "h \<noteq> hs ! i" using i by (simp add: nth_append)
    have "\<forall>j. i < j \<and> j < length hs \<longrightarrow> hs ! j \<noteq> hs ! i"
    proof (intro allI impI)
      fix j assume j: "i < j \<and> j < length hs"
      then have "(hs @ [h]) ! j \<noteq> (hs @ [h]) ! i" using snoc.prems(2) by simp
      then show "hs ! j \<noteq> hs ! i" using j i by (simp add: nth_append)
    qed
    with snoc.IH i have "make_record hs cells (hs ! i) = Some (cell_or_empty cells i)" by simp
    then show ?thesis using neq i by (simp add: make_record_snoc nth_append)
  qed
qed

lemma cell_or_empty_map_trim:
  "cell_or_empty (map trim cells) i = trim (cell_or_empty cells i)"
  by (simp add: cell_or_empty_def trim_Nil)

lemma cve_id_make_record:
  assumes "i < length hs" "hs ! i = ''CVE_ID''"
    and "\<forall>i'. i < i' \<and> i' < length hs \<longrightarrow> hs ! i' \<noteq> ''CVE_ID''"
  shows "cve_id (make_record hs (map trim cells)) = trim (cell_or_empty cells i)"
proof -
  have "make_record hs (map trim cells) (hs ! i) = Some (cell_or_empty (map trim cells) i)"
    using assms by (intro make_record_last) auto
  then have "make_record hs (map trim cells) ''CVE_ID'' = Some (trim (cell_or_empty cells i))"
    by (simp add: assms(2) cell_or_empty_map_trim)
  then show ?thesis
    by (simp add: cve_id_def trim_trim trim_Nil)
qed

lemma parseCSV_eq:
  "parseCSV v content =
     Inr (map (\<lambda>line. make_record (csv_headers content) (map trim (split_on (CHR '','') line)))
            (csv_data_lines content))"
proof (cases "split_lines (trim content)")
  case Nil
  then show ?thesis using split_lines_not_Nil by blast
next
  case (Cons l ls)
  then show ?thesis
    by (simp add: parseCSV_def csv_headers_def csv_data_lines_def csv_lines_def)
qed

section \<open>The normalizer: basic facts\<close>

lemma get_field_set_field:
  "get_field (set_field k v ps) k' = (if k' = k then v else get_field ps k')"
  by (simp add: get_field_def set_field_def update_conv')

lemma map_of_set_field:
  "map_of (set_field k v ps) k' = (if k' = k then Some v else map_of ps k')"
  by (simp add: set_field_def update_conv')

lemma normalizeRow_JObj:
  "normalizeRow v ow (JObj r) =
     Inr (set_field ''Owner_Suggested'' (owner_suggested ow (JObj r))
           (set_field ''Remediation_Steps'' (remediation_steps v (JObj r))
             (set_field ''Description_Short'' (description_short v (JObj r)) r)))"
  by (simp add: normalizeRow_def)

lemma normalizeRow_fields:
  assumes "normalizeRow v ow (JObj r) = Inr out"
  shows "get_field out ''Description_Short'' = description_short v (JObj r)"
    and "get_field out ''Remediation_Steps'' = remediation_steps v (JObj r)"
    and "get_field out ''Owner_Suggested'' = owner_suggested ow (JObj r)"
    and "k \<noteq> ''Description_Short'' \<Longrightarrow> k \<noteq> ''Remediation_Steps'' \<Longrightarrow> k \<noteq> ''Owner_Suggested''
           \<Longrightarrow> map_of out k = map_of r k"
  using assms by (auto simp: normalizeRow_JObj get_field_set_field map_of_set_field)

lemma map_exn_total:
  assumes "\<And>x. x \<in> set xs \<Longrightarrow> \<exists>y. f x = Inr y"
  shows "\<exists>ys. map_exn f xs = Inr ys \<and> length ys = length xs \<and> (\<forall>i<length xs. f (xs ! i) = Inr (ys ! i))"
  using assms
proof (induction xs)
  case Nil
  then show ?case by simp
next
  case (Cons x xs)
  then obtain y where y: "f x = Inr y" by auto
  from Cons obtain ys where ys: "map_exn f xs = Inr ys" "length ys = length xs"
      "\<forall>i<length xs. f (xs ! i) = Inr (ys ! i)" by auto
  have "\<forall>i<length (x # xs). f ((x # xs) ! i) = Inr ((y # ys) ! i)"
    using y ys(3) by (auto simp: nth_Cons split: nat.splits)
  with y ys show ?case by simp
qed

lemma normalizeRows_records:
  "\<exists>outs. normalizeRows v (JArr (map JObj rs)) ow = Inr outs \<and> length outs = length rs \<and>
     (\<forall>i<length rs. normalizeRow v ow (JObj (rs ! i)) = Inr (outs ! i))"
proof -
  have "\<exists>ys. map_exn (normalizeRow v ow) (map JObj rs) = Inr ys \<and> length ys = length (map JObj rs) \<and>
      (\<forall>i<length (map JObj rs). normalizeRow v ow (map JObj rs ! i) = Inr (ys ! i))"
    by (rule map_exn_total) (auto simp: normalizeRow_JObj)
  then show ?thesis by (simp add: normalizeRows_def js_or_def)
qed

lemma normalizeRows_fields:
  "\<exists>outs. normalizeRows v (JArr (map JObj rs)) ow = Inr outs \<and> length outs = length rs \<and>
     (\<forall>i<length rs.
        get_field (outs ! i) ''Description_Short'' = description_short v (JObj (rs ! i)) \<and>
        get_field (outs ! i) ''Remediation_Steps'' = remediation_steps v (JObj (rs ! i)) \<and>
        get_field (outs ! i) ''Owner_Suggested'' = owner_suggested ow (JObj (rs ! i)))"
proof -
  obtain outs where o: "normalizeRows v (JArr (map JObj rs)) ow = Inr outs" "length outs = length rs"
     "\<forall>i<length rs. normalizeRow v ow (JObj (rs ! i)) = Inr (outs ! i)"
    using normalizeRows_records by blast
  have "get_field (outs ! i) ''Description_Short'' = description_short v (JObj (rs ! i)) \<and>
        get_field (outs ! i) ''Remediation_Steps'' = remediation_steps v (JObj (rs ! i)) \<and>
        get_field (outs ! i) ''Owner_Suggested'' = owner_suggested ow (JObj (rs ! i))"
    if "i < length rs" for i
    using o(3) that normalizeRow_fields(1-3)[of v ow "rs ! i" "outs ! i"] by simp
  with o show ?thesis by blast
qed

lemma normalizeRows_heap_spec:
  assumes "\<forall>a\<in>set refs. a < length h"
  shows "\<exists>bs h'. normalizeRows_heap v refs ow h = Inr (bs, h') \<and>
           length bs = length refs \<and>
           length h' = length h + length refs \<and>
           take (length h) h' = h \<and>
           (\<forall>i<length refs. bs ! i = length h + i \<and>
              normalizeRow v ow (JObj (h ! (refs ! i))) = Inr (h' ! (bs ! i)))"
  using assms
proof (induction refs arbitrary: h)
  case Nil
  then show ?case by simp
next
  case (Cons a as)
  obtain new where new: "normalizeRow v ow (JObj (h ! a)) = Inr new"
    by (simp add: normalizeRow_JObj)
  have valid: "\<forall>a\<in>set as. a < length (h @ [new])"
    using Cons.prems by auto
  from Cons.IH[OF valid] obtain bs h' where
    rec: "normalizeRows_heap v as ow (h @ [new]) = Inr (bs, h')"
    and len: "length bs = length as" "length h' = length (h @ [new]) + length as"
    and pre: "take (length (h @ [new])) h' = h @ [new]"
    and each: "\<forall>i<length as. bs ! i = length (h @ [new]) + i \<and>
                 normalizeRow v ow (JObj ((h @ [new]) ! (as ! i))) = Inr (h' ! (bs ! i))"
    by blast
  have eq: "normalizeRows_heap v (a # as) ow h = Inr (length h # bs, h')"
    by (simp add: new rec)
  have pre_h: "take (length h) h' = h"
  proof -
    have "take (length h) (take (length (h @ [new])) h') = take (length h) (h @ [new])"
      by (simp only: pre)
    then show ?thesis by (simp add: min_def)
  qed
  have at_new: "h' ! length h = new"
  proof -
    have "h' ! length h = take (length (h @ [new])) h' ! length h"
      by simp
    also have "\<dots> = (h @ [new]) ! length h" by (simp only: pre)
    finally show ?thesis by simp
  qed
  have "(length h # bs) ! i = length h + i \<and>
        normalizeRow v ow (JObj (h ! ((a # as) ! i))) = Inr (h' ! ((length h # bs) ! i))"
    if i: "i < length (a # as)" for i
  proof (cases i)
    case 0
    then show ?thesis by (simp add: new at_new)
  next
    case (Suc k)
    with i have k: "k < length as" by simp
    then have "as ! k < length h" using Cons.prems by auto
    then have same: "(h @ [new]) ! (as ! k) = h ! (as ! k)" by (simp add: nth_append)
    from each k have "bs ! k = length (h @ [new]) + k"
      and "normalizeRow v ow (JObj ((h @ [new]) ! (as ! k))) = Inr (h' ! (bs ! k))"
      by blast+
    with same Suc show ?thesis by simp
  qed
  with eq len pre_h show ?case by simp
qed


section \<open>The handlers: basic facts\<close>

lemma submit_blocked:
  "ids = [] \<or> api_unset (API e) \<Longrightarrow>
   submit v s m e ids st = (None, alert (if ids = [] then m else api_unset_message v) st)"
  by (auto simp: submit_def)

lemma submit_sent:
  "ids \<noteq> [] \<Longrightarrow> \<not> api_unset (API e) \<Longrightarrow>
   submit v s m e ids st =
     (case fetch e \<lparr>url = enrich_url (API e), cves = ids\<rparr> of
        Rejects x \<Rightarrow> (Some x, st\<lparr>requests := requests st @ [\<lparr>url = enrich_url (API e), cves = ids\<rparr>]\<rparr>)
      | Resolves res \<Rightarrow>
          show_response v s res (st\<lparr>requests := requests st @ [\<lparr>url = enrich_url (API e), cves = ids\<rparr>]\<rparr>))"
  by (simp add: submit_def Let_def)

lemma show_response_not_ok:
  "\<not> ok res \<Longrightarrow> show_response v s res st = (Some (backend_error res), st)"
  by (simp add: show_response_def)

lemma message_backend_error:
  "message (backend_error res) =
     ''Backend error '' @ string_of_nat (status res) @ '': '' @
       (case res_text res of
          Resolves t \<Rightarrow> if t \<noteq> [] then t else statusText res
        | Rejects x \<Rightarrow> statusText res)"
  by (simp add: backend_error_def Let_def split: promise.splits)

lemma message_backend_error_not_Nil: "message (backend_error res) \<noteq> []"
  by (simp add: backend_error_def Let_def)

lemma catch_None: "catch fb (None, st) = st"
  by (simp add: catch_def)

lemma catch_Some:
  "catch fb (Some x, st) =
     alert (if message x \<noteq> [] then message x else fb) (st\<lparr>console := console st @ [LogError x]\<rparr>)"
  by (simp add: catch_def)

lemma parseCSV_total: "\<exists>parsed. parseCSV v txt = Inr parsed"
  by (simp add: parseCSV_eq)

lemma normalizeRows_nullish: "nullish rws \<Longrightarrow> normalizeRows v rws ow = Inr []"
  by (cases rws) (simp_all add: normalizeRows_def js_or_def)

lemma show_response_nullish_rows:
  assumes "ok res" "res_json res = Resolves data" "\<not> nullish data"
    and "nullish (get_prop data ''rows'')"
  shows "show_response v s res st =
     (None, (if s then st\<lparr>console := console st @ [LogSample (row_sample data)]\<rparr> else st)
              \<lparr>rows := []\<rparr>)"
  using assms by (simp add: show_response_def Let_def normalizeRows_nullish)

lemma example_text_cves:
  "text_cves (text_value page_with_results) = [''CVE-2021-44228'', ''CVE-2021-44228'', ''CVE-2023-4863'']"
  by (simp add: page_with_results_def text_cves_def trim_def isWhiteSpace_def)

section \<open>The claims about the normalizer\<close>

text \<open>
  C2 (as amended). For every list of records, the later normalizer sets
  \<^verbatim>\<open>Description_Short\<close> to the first non-empty value of \<^verbatim>\<open>AI_Brief\<close>, then
  \<^verbatim>\<open>Brief_Description\<close>, and to the empty string when both are empty; the earlier
  normalizer does the same with \<^verbatim>\<open>Brief_Description\<close>, then \<^verbatim>\<open>Description_Short\<close>. Neither
  consults all three fields. In the later version a record with \<^verbatim>\<open>AI_Brief = "x"\<close> and
  \<^verbatim>\<open>Brief_Description = "y"\<close> gets the brief \<^verbatim>\<open>"x"\<close>, and a record with only
  \<^verbatim>\<open>Brief_Description = "y"\<close> gets \<^verbatim>\<open>"y"\<close> (the witness).
\<close>

theorem normalizer_brief_precedence:
  "\<exists>outs. normalizeRows v (JArr (map JObj rs)) ow = Inr outs \<and> length outs = length rs \<and>
     (\<forall>i<length rs. get_field (outs ! i) ''Description_Short'' =
        (case v of
           Later \<Rightarrow> first_nonempty [get_field (rs ! i) ''AI_Brief'',
                                     get_field (rs ! i) ''Brief_Description'']
         | Earlier \<Rightarrow> first_nonempty [get_field (rs ! i) ''Brief_Description'',
                                       get_field (rs ! i) ''Description_Short'']))"
proof -
  obtain outs where o: "normalizeRows v (JArr (map JObj rs)) ow = Inr outs" "length outs = length rs"
     "\<forall>i<length rs. get_field (outs ! i) ''Description_Short'' = description_short v (JObj (rs ! i))"
    using normalizeRows_fields by blast
  have "description_short v (JObj r) =
        (case v of
           Later \<Rightarrow> first_nonempty [get_field r ''AI_Brief'', get_field r ''Brief_Description'']
         | Earlier \<Rightarrow> first_nonempty [get_field r ''Brief_Description'', get_field r ''Description_Short''])"
    for r
    by (cases v) (simp_all add: js_or_def get_prop_def)
  with o show ?thesis by auto
qed

theorem normalizer_brief_precedence_witness:
  "normalizeRows Later
     (JArr (map JObj [[(''AI_Brief'', JStr ''x''), (''Brief_Description'', JStr ''y'')],
                      [(''Brief_Description'', JStr ''y'')]])) ''''
   = Inr [[(''AI_Brief'', JStr ''x''), (''Brief_Description'', JStr ''y''),
           (''Description_Short'', JStr ''x''), (''Remediation_Steps'', JStr ''''),
           (''Owner_Suggested'', JStr '''')],
          [(''Brief_Description'', JStr ''y''),
           (''Description_Short'', JStr ''y''), (''Remediation_Steps'', JStr ''''),
           (''Owner_Suggested'', JStr '''')]]"
  using normalizer_brief_precedence[of Later
      "[[(''AI_Brief'', JStr ''x''), (''Brief_Description'', JStr ''y'')],
        [(''Brief_Description'', JStr ''y'')]]" "''''"]
  by (simp add: normalizeRows_def normalizeRow_def js_or_def set_field_def get_prop_def
        get_field_def owner_suggested_def)

text \<open>
  The claim as stated fails in the later version on a record that has only
  \<^verbatim>\<open>Description_Short = "z"\<close>: the first non-empty value of the three fields is \<^verbatim>\<open>"z"\<close>,
  the normalizer stores the empty string.
\<close>

theorem normalizer_brief_counterexample:
  "normalizeRows Later (JArr [JObj [(''Description_Short'', JStr ''z'')]]) ''''
     = Inr [[(''Description_Short'', JStr ''''), (''Remediation_Steps'', JStr ''''),
             (''Owner_Suggested'', JStr '''')]]
   \<and> first_nonempty (map (get_field [(''Description_Short'', JStr ''z'')])
        [''AI_Brief'', ''Brief_Description'', ''Description_Short'']) = JStr ''z''"
  by (simp add: normalizeRows_def normalizeRow_def js_or_def set_field_def get_prop_def
        get_field_def owner_suggested_def)

text \<open>
  C6. For every list of records and every default owner: when the default owner is not
  empty, \<^verbatim>\<open>Owner_Suggested\<close> of every normalized record is the default owner, whatever
  the record held; when it is empty, \<^verbatim>\<open>Owner_Suggested\<close> is the record's own value, or
  the empty string when the record has none (no such field, or an empty one in the
  sense of \<^verbatim>\<open>||\<close>).
\<close>

theorem normalizer_owner:
  "\<exists>outs. normalizeRows v (JArr (map JObj rs)) ow = Inr outs \<and> length outs = length rs \<and>
     (\<forall>i<length rs. get_field (outs ! i) ''Owner_Suggested'' =
        (if ow \<noteq> [] then JStr ow
         else if truthy (get_field (rs ! i) ''Owner_Suggested'')
              then get_field (rs ! i) ''Owner_Suggested''
              else JStr ''''))"
proof -
  obtain outs where o: "normalizeRows v (JArr (map JObj rs)) ow = Inr outs" "length outs = length rs"
     "\<forall>i<length rs. get_field (outs ! i) ''Owner_Suggested'' = owner_suggested ow (JObj (rs ! i))"
    using normalizeRows_fields by blast
  have "owner_suggested ow (JObj r) =
        (if ow \<noteq> [] then JStr ow
         else if truthy (get_field r ''Owner_Suggested'') then get_field r ''Owner_Suggested''
              else JStr '''')" for r
    by (simp add: owner_suggested_def js_or_def get_prop_def)
  with o show ?thesis by auto
qed

theorem normalizer_owner_witness:
  "normalizeRows Later
     (JArr (map JObj [[(''CVE_ID'', JStr ''CVE-1'')],
                      [(''CVE_ID'', JStr ''CVE-2''), (''Owner_Suggested'', JStr ''old@x.com'')]]))
     ''team@x.com''
   = Inr [[(''CVE_ID'', JStr ''CVE-1''), (''Description_Short'', JStr ''''),
           (''Remediation_Steps'', JStr ''''), (''Owner_Suggested'', JStr ''team@x.com'')],
          [(''CVE_ID'', JStr ''CVE-2''), (''Owner_Suggested'', JStr ''team@x.com''),
           (''Description_Short'', JStr ''''), (''Remediation_Steps'', JStr '''')]]
   \<and> normalizeRows Later
     (JArr (map JObj [[(''CVE_ID'', JStr ''CVE-1'')],
                      [(''CVE_ID'', JStr ''CVE-2''), (''Owner_Suggested'', JStr ''old@x.com'')]]))
     ''''
   = Inr [[(''CVE_ID'', JStr ''CVE-1''), (''Description_Short'', JStr ''''),
           (''Remediation_Steps'', JStr ''''), (''Owner_Suggested'', JStr '''')],
          [(''CVE_ID'', JStr ''CVE-2''), (''Owner_Suggested'', JStr ''old@x.com''),
           (''Description_Short'', JStr ''''), (''Remediation_Steps'', JStr '''')]]"
  using normalizer_owner[of Later
      "[[(''CVE_ID'', JStr ''CVE-1'')],
        [(''CVE_ID'', JStr ''CVE-2''), (''Owner_Suggested'', JStr ''old@x.com'')]]" "''team@x.com''"]
  by (simp add: normalizeRows_def normalizeRow_def js_or_def set_field_def get_prop_def
        get_field_def owner_suggested_def)

text \<open>
  C8. The later normalizer sets \<^verbatim>\<open>Remediation_Steps\<close> to \<^verbatim>\<open>Remediation_Links\<close>, or to the
  empty string when that is empty, and never to the record's old \<^verbatim>\<open>Remediation_Steps\<close>;
  the earlier one falls back to the old \<^verbatim>\<open>Remediation_Steps\<close> before the empty string.
  The two results are equal exactly when \<^verbatim>\<open>Remediation_Links\<close> is non-empty or the old
  \<^verbatim>\<open>Remediation_Steps\<close> is empty.
\<close>

theorem remediation_variants:
  "\<exists>later earlier.
     normalizeRows Later (JArr (map JObj rs)) ow = Inr later \<and> length later = length rs \<and>
     normalizeRows Earlier (JArr (map JObj rs)) ow = Inr earlier \<and> length earlier = length rs \<and>
     (\<forall>i<length rs.
        get_field (later ! i) ''Remediation_Steps'' =
          first_nonempty [get_field (rs ! i) ''Remediation_Links''] \<and>
        get_field (earlier ! i) ''Remediation_Steps'' =
          first_nonempty [get_field (rs ! i) ''Remediation_Links'',
                          get_field (rs ! i) ''Remediation_Steps''] \<and>
        (get_field (later ! i) ''Remediation_Steps'' = get_field (earlier ! i) ''Remediation_Steps''
           \<longleftrightarrow> truthy (get_field (rs ! i) ''Remediation_Links'') \<or>
               \<not> truthy (get_field (rs ! i) ''Remediation_Steps'')))"
proof -
  obtain later where l: "normalizeRows Later (JArr (map JObj rs)) ow = Inr later"
     "length later = length rs"
     "\<forall>i<length rs. get_field (later ! i) ''Remediation_Steps'' = remediation_steps Later (JObj (rs ! i))"
    using normalizeRows_fields[of Later rs ow] by blast
  obtain earlier where e: "normalizeRows Earlier (JArr (map JObj rs)) ow = Inr earlier"
     "length earlier = length rs"
     "\<forall>i<length rs. get_field (earlier ! i) ''Remediation_Steps'' = remediation_steps Earlier (JObj (rs ! i))"
    using normalizeRows_fields[of Earlier rs ow] by blast
  have key: "remediation_steps Later (JObj r) = first_nonempty [get_field r ''Remediation_Links''] \<and>
        remediation_steps Earlier (JObj r) =
          first_nonempty [get_field r ''Remediation_Links'', get_field r ''Remediation_Steps''] \<and>
        (remediation_steps Later (JObj r) = remediation_steps Earlier (JObj r)
           \<longleftrightarrow> truthy (get_field r ''Remediation_Links'') \<or>
               \<not> truthy (get_field r ''Remediation_Steps''))" for r
    by (auto simp: js_or_def get_prop_def) (metis truthy.simps(5))
  have "get_field (later ! i) ''Remediation_Steps'' =
          first_nonempty [get_field (rs ! i) ''Remediation_Links''] \<and>
        get_field (earlier ! i) ''Remediation_Steps'' =
          first_nonempty [get_field (rs ! i) ''Remediation_Links'',
                          get_field (rs ! i) ''Remediation_Steps''] \<and>
        (get_field (later ! i) ''Remediation_Steps'' = get_field (earlier ! i) ''Remediation_Steps''
           \<longleftrightarrow> truthy (get_field (rs ! i) ''Remediation_Links'') \<or>
               \<not> truthy (get_field (rs ! i) ''Remediation_Steps''))"
    if "i < length rs" for i
  proof -
    from l(3) that have a: "get_field (later ! i) ''Remediation_Steps'' =
        remediation_steps Later (JObj (rs ! i))" by blast
    from e(3) that have b: "get_field (earlier ! i) ''Remediation_Steps'' =
        remediation_steps Earlier (JObj (rs ! i))" by blast
    show ?thesis unfolding a b by (rule key)
  qed
  with l(1,2) e(1,2) show ?thesis by blast
qed

theorem remediation_variants_witness:
  "normalizeRows Later
     (JArr (map JObj [[(''Remediation_Links'', JStr ''l''), (''Remediation_Steps'', JStr ''s'')],
                      [(''Remediation_Steps'', JStr ''s'')]])) ''''
   = Inr [[(''Remediation_Links'', JStr ''l''), (''Remediation_Steps'', JStr ''l''),
           (''Description_Short'', JStr ''''), (''Owner_Suggested'', JStr '''')],
          [(''Remediation_Steps'', JStr ''''),
           (''Description_Short'', JStr ''''), (''Owner_Suggested'', JStr '''')]]
   \<and> normalizeRows Earlier
     (JArr (map JObj [[(''Remediation_Links'', JStr ''l''), (''Remediation_Steps'', JStr ''s'')],
                      [(''Remediation_Steps'', JStr ''s'')]])) ''''
   = Inr [[(''Remediation_Links'', JStr ''l''), (''Remediation_Steps'', JStr ''l''),
           (''Description_Short'', JStr ''''), (''Owner_Suggested'', JStr '''')],
          [(''Remediation_Steps'', JStr ''s''),
           (''Description_Short'', JStr ''''), (''Owner_Suggested'', JStr '''')]]"
  using remediation_variants[of
      "[[(''Remediation_Links'', JStr ''l''), (''Remediation_Steps'', JStr ''s'')],
        [(''Remediation_Steps'', JStr ''s'')]]" "''''"]
  by (simp add: normalizeRows_def normalizeRow_def js_or_def set_field_def get_prop_def
        get_field_def owner_suggested_def)

text \<open>
  C9. For every array of records (every heap and every list of addresses of allocated
  objects) and every default owner, \<^verbatim>\<open>normalizeRows\<close> returns, with one record per
  input record. No object that existed before the call is modified: the heap after the
  call agrees with the heap before on every old address. Each returned record is a new
  object, and every field other than \<^verbatim>\<open>Description_Short\<close>, \<^verbatim>\<open>Remediation_Steps\<close> and
  \<^verbatim>\<open>Owner_Suggested\<close> has in it what it had in the input record. The records returned
  are those that \<^const>\<open>normalizeRows\<close> computes on the values.
\<close>

theorem normalizer_frame:
  assumes "\<forall>a\<in>set refs. a < length h"
  shows "\<exists>bs h'. normalizeRows_heap v refs ow h = Inr (bs, h') \<and>
           length bs = length refs \<and>
           (\<forall>a<length h. h' ! a = h ! a) \<and>
           (\<forall>i<length refs.
              length h \<le> bs ! i \<and> bs ! i < length h' \<and>
              (\<forall>k. k \<notin> {''Description_Short'', ''Remediation_Steps'', ''Owner_Suggested''}
                    \<longrightarrow> map_of (h' ! (bs ! i)) k = map_of (h ! (refs ! i)) k)) \<and>
           normalizeRows v (JArr (map (\<lambda>a. JObj (h ! a)) refs)) ow = Inr (map (\<lambda>b. h' ! b) bs)"
proof -
  from normalizeRows_heap_spec[OF assms, of v ow] obtain bs h' where
    eq: "normalizeRows_heap v refs ow h = Inr (bs, h')"
    and len: "length bs = length refs" "length h' = length h + length refs"
    and pre: "take (length h) h' = h"
    and each: "\<forall>i<length refs. bs ! i = length h + i \<and>
                 normalizeRow v ow (JObj (h ! (refs ! i))) = Inr (h' ! (bs ! i))"
    by blast
  have old: "\<forall>a<length h. h' ! a = h ! a"
  proof (intro allI impI)
    fix a assume "a < length h"
    then have "take (length h) h' ! a = h' ! a" by simp
    then show "h' ! a = h ! a" by (simp only: pre)
  qed
  have frame: "length h \<le> bs ! i \<and> bs ! i < length h' \<and>
      (\<forall>k. k \<notin> {''Description_Short'', ''Remediation_Steps'', ''Owner_Suggested''}
            \<longrightarrow> map_of (h' ! (bs ! i)) k = map_of (h ! (refs ! i)) k)"
    if i: "i < length refs" for i
  proof -
    from each i have b: "bs ! i = length h + i"
      and n: "normalizeRow v ow (JObj (h ! (refs ! i))) = Inr (h' ! (bs ! i))" by blast+
    have "map_of (h' ! (bs ! i)) k = map_of (h ! (refs ! i)) k"
      if "k \<notin> {''Description_Short'', ''Remediation_Steps'', ''Owner_Suggested''}" for k
      using normalizeRow_fields(4)[OF n, of k] that by simp
    then show ?thesis using b i len by simp
  qed
  obtain outs where o: "normalizeRows v (JArr (map JObj (map (\<lambda>a. h ! a) refs))) ow = Inr outs"
     "length outs = length (map (\<lambda>a. h ! a) refs)"
     "\<forall>i<length (map (\<lambda>a. h ! a) refs).
        normalizeRow v ow (JObj (map (\<lambda>a. h ! a) refs ! i)) = Inr (outs ! i)"
    using normalizeRows_records by blast
  have "outs = map (\<lambda>b. h' ! b) bs"
  proof (rule nth_equalityI)
    show "length outs = length (map (\<lambda>b. h' ! b) bs)" using o(2) len by simp
  next
    fix i assume "i < length outs"
    then have i: "i < length refs" using o(2) by simp
    with o(3) have "normalizeRow v ow (JObj (h ! (refs ! i))) = Inr (outs ! i)" by simp
    moreover from each i have "normalizeRow v ow (JObj (h ! (refs ! i))) = Inr (h' ! (bs ! i))"
      by blast
    ultimately show "outs ! i = map (\<lambda>b. h' ! b) bs ! i" using i len by simp
  qed
  with o(1) have val: "normalizeRows v (JArr (map (\<lambda>a. JObj (h ! a)) refs)) ow =
      Inr (map (\<lambda>b. h' ! b) bs)"
    by (simp add: comp_def)
  from eq len(1) old frame val show ?thesis by blast
qed

theorem normalizer_frame_witness:
  "normalizeRows_heap Later [1, 0] ''team@x.com''
     [[(''CVE_ID'', JStr ''CVE-1''), (''EPSS'', JNum 0.5)],
      [(''CVE_ID'', JStr ''CVE-2''), (''Brief_Description'', JStr ''y'')]]
   = Inr ([2, 3],
      [[(''CVE_ID'', JStr ''CVE-1''), (''EPSS'', JNum 0.5)],
       [(''CVE_ID'', JStr ''CVE-2''), (''Brief_Description'', JStr ''y'')],
       [(''CVE_ID'', JStr ''CVE-2''), (''Brief_Description'', JStr ''y''),
        (''Description_Short'', JStr ''y''), (''Remediation_Steps'', JStr ''''),
        (''Owner_Suggested'', JStr ''team@x.com'')],
       [(''CVE_ID'', JStr ''CVE-1''), (''EPSS'', JNum 0.5),
        (''Description_Short'', JStr ''''), (''Remediation_Steps'', JStr ''''),
        (''Owner_Suggested'', JStr ''team@x.com'')]])"
  using normalizer_frame[of "[1, 0]"
     "[[(''CVE_ID'', JStr ''CVE-1''), (''EPSS'', JNum 0.5)],
       [(''CVE_ID'', JStr ''CVE-2''), (''Brief_Description'', JStr ''y'')]]" Later "''team@x.com''"]
  by (simp add: normalizeRow_def js_or_def set_field_def get_prop_def
        get_field_def owner_suggested_def)

section \<open>The claims about CSV ingestion\<close>





text \<open>
  C4. When the header line of a CSV text has a column named \<^verbatim>\<open>CVE_ID\<close> (column \<open>i\<close>,
  the last one of that name), the identifiers extracted from the text have no duplicates
  and are exactly the non-empty trimmed values that the data lines hold in column \<open>i\<close>
  (a line without a cell \<open>i\<close> contributes nothing).
\<close>

theorem csv_identifier_extraction:
  assumes "i < length (csv_headers content)"
    and "csv_headers content ! i = ''CVE_ID''"
    and "\<forall>i'. i < i' \<and> i' < length (csv_headers content) \<longrightarrow> csv_headers content ! i' \<noteq> ''CVE_ID''"
  shows "\<exists>parsed. parseCSV v content = Inr parsed \<and>
           distinct (csv_cves parsed) \<and>
           set (csv_cves parsed) =
             {s. s \<noteq> [] \<and>
                 (\<exists>line\<in>set (csv_data_lines content).
                    s = trim (cell_or_empty (split_on (CHR '','') line) i))}"
proof -
  define parsed where "parsed =
    map (\<lambda>line. make_record (csv_headers content) (map trim (split_on (CHR '','') line)))
      (csv_data_lines content)"
  have eq: "parseCSV v content = Inr parsed"
    by (simp add: parseCSV_eq parsed_def)
  have ids: "map cve_id parsed =
      map (\<lambda>line. trim (cell_or_empty (split_on (CHR '','') line) i)) (csv_data_lines content)"
    by (simp add: parsed_def cve_id_make_record[OF assms])
  have "set (csv_cves parsed) =
      {s. s \<noteq> [] \<and>
          (\<exists>line\<in>set (csv_data_lines content).
             s = trim (cell_or_empty (split_on (CHR '','') line) i))}"
    unfolding csv_cves_def set_new_Set ids by auto
  moreover have "distinct (csv_cves parsed)"
    by (simp add: csv_cves_def distinct_new_Set)
  ultimately show ?thesis using eq by blast
qed

lemma csv_example2_headers:
  "csv_headers ''Asset, CVE_ID\<newline>web,CVE-1\<newline>db, CVE-2 \<newline>app\<newline>api,CVE-1\<newline>x,'' = [''Asset'', ''CVE_ID'']"
  by (simp add: csv_headers_def csv_lines_def trim_def isWhiteSpace_def)

lemma csv_example2_data:
  "csv_data_lines ''Asset, CVE_ID\<newline>web,CVE-1\<newline>db, CVE-2 \<newline>app\<newline>api,CVE-1\<newline>x,'' =
     [''web,CVE-1'', ''db, CVE-2 '', ''app'', ''api,CVE-1'', ''x,'']"
  by (simp add: csv_data_lines_def csv_lines_def trim_def isWhiteSpace_def)

theorem csv_identifier_extraction_witness:
  "\<exists>parsed. parseCSV Later ''Asset, CVE_ID\<newline>web,CVE-1\<newline>db, CVE-2 \<newline>app\<newline>api,CVE-1\<newline>x,'' = Inr parsed \<and>
     distinct (csv_cves parsed) \<and> set (csv_cves parsed) = {''CVE-1'', ''CVE-2''}"
proof -
  let ?c = "''Asset, CVE_ID\<newline>web,CVE-1\<newline>db, CVE-2 \<newline>app\<newline>api,CVE-1\<newline>x,''"
  have h1: "1 < length (csv_headers ?c)"
    and h2: "csv_headers ?c ! 1 = ''CVE_ID''"
    and h3: "\<forall>i'. 1 < i' \<and> i' < length (csv_headers ?c) \<longrightarrow> csv_headers ?c ! i' \<noteq> ''CVE_ID''"
    unfolding csv_example2_headers by simp_all
  have vals: "{s. s \<noteq> [] \<and>
                 (\<exists>line\<in>set (csv_data_lines ?c).
                    s = trim (cell_or_empty (split_on (CHR '','') line) 1))} = {''CVE-1'', ''CVE-2''}"
    unfolding csv_example2_data
    by (auto simp: cell_or_empty_def trim_def isWhiteSpace_def)
  from csv_identifier_extraction[OF h1 h2 h3, of Later] show ?thesis
    unfolding vals .
qed

section \<open>The claims about the handlers\<close>

text \<open>
  C3. When a request is sent (there are identifiers and \<^verbatim>\<open>API\<close> is set) and the answer
  is a response with a status outside 200 to 299, then in both handlers and both
  versions the rows shown stay as they were, exactly one alert is added, with the text
  \<^verbatim>\<open>Backend error <status>: <body or status text>\<close>, and exactly one request was issued.
\<close>

theorem failed_response_keeps_rows:
  assumes "\<not> api_unset (API e)"
    and "fetch e \<lparr>url = enrich_url (API e), cves = ids\<rparr> = Resolves res"
    and "\<not> ok res"
    and "ids \<noteq> []"
  shows "(text_cves (text_value st) = ids \<longrightarrow>
            rows (enrich v e st) = rows st \<and>
            alerts (enrich v e st) = alerts st @ [message (backend_error res)] \<and>
            requests (enrich v e st) =
              requests st @ [\<lparr>url = enrich_url (API e), cves = ids\<rparr>]) \<and>
         (\<exists>parsed. parseCSV v txt = Inr parsed \<and>
            (csv_cves parsed = ids \<longrightarrow>
               rows (onUploadCSV v e (Some (Resolves txt)) st) = rows st \<and>
               alerts (onUploadCSV v e (Some (Resolves txt)) st) =
                 alerts st @ [message (backend_error res)] \<and>
               requests (onUploadCSV v e (Some (Resolves txt)) st) =
                 requests st @ [\<lparr>url = enrich_url (API e), cves = ids\<rparr>]))"
proof -
  have sub: "submit v s m e ids st' =
      (Some (backend_error res),
       st'\<lparr>requests := requests st' @ [\<lparr>url = enrich_url (API e), cves = ids\<rparr>]\<rparr>)" for s m st'
    using assms by (simp add: submit_sent show_response_not_ok)
  have a: "rows (enrich v e st) = rows st \<and>
            alerts (enrich v e st) = alerts st @ [message (backend_error res)] \<and>
            requests (enrich v e st) =
              requests st @ [\<lparr>url = enrich_url (API e), cves = ids\<rparr>]"
    if "text_cves (text_value st) = ids"
    using that
    by (simp add: enrich_def Let_def sub catch_Some alert_def message_backend_error_not_Nil)
  obtain parsed where p: "parseCSV v txt = Inr parsed" using parseCSV_total by blast
  have b: "rows (onUploadCSV v e (Some (Resolves txt)) st) = rows st \<and>
               alerts (onUploadCSV v e (Some (Resolves txt)) st) =
                 alerts st @ [message (backend_error res)] \<and>
               requests (onUploadCSV v e (Some (Resolves txt)) st) =
                 requests st @ [\<lparr>url = enrich_url (API e), cves = ids\<rparr>]"
    if "csv_cves parsed = ids"
    using that
    by (simp add: onUploadCSV_def upload_try_def p Let_def sub catch_Some alert_def
          message_backend_error_not_Nil)
  from a b p show ?thesis by blast
qed

theorem failed_response_keeps_rows_witness:
  "rows (enrich Later failing_backend page_with_results) = [[(''CVE_ID'', JStr ''CVE-2024-3094'')]] \<and>
   alerts (enrich Later failing_backend page_with_results) = [''Backend error 500: boom''] \<and>
   length (requests (enrich Later failing_backend page_with_results)) = 1"
proof -
  let ?ids = "[''CVE-2021-44228'', ''CVE-2021-44228'', ''CVE-2023-4863'']"
  let ?res = "\<lparr>status = 500, statusText = ''Internal Server Error'',
                 res_text = Resolves ''boom'', res_json = Rejects (SyntaxError ''Unexpected token'')\<rparr>"
  have h1: "\<not> api_unset (API failing_backend)"
    by (simp add: failing_backend_def api_unset_def)
  have h2: "fetch failing_backend \<lparr>url = enrich_url (API failing_backend), cves = ?ids\<rparr> = Resolves ?res"
    by (simp add: failing_backend_def)
  have h3: "\<not> ok ?res" by (simp add: ok_def)
  have h4: "?ids \<noteq> []" by simp
  have m: "message (backend_error ?res) = ''Backend error 500: boom''"
    by (simp add: backend_error_def digit_char_def)
  have r: "rows page_with_results = [[(''CVE_ID'', JStr ''CVE-2024-3094'')]]"
    and a: "alerts page_with_results = []" and q: "requests page_with_results = []"
    by (simp_all add: page_with_results_def)
  from failed_response_keeps_rows[OF h1 h2 h3 h4, of page_with_results Later]
  show ?thesis
    using example_text_cves by (simp add: m r a q)
qed

text \<open>
  C7. When the identifier list is empty or \<^verbatim>\<open>API\<close> is not set (undefined or empty), both
  handlers, in both versions, issue no request, leave the rows as they were and show
  exactly one alert: the message about the missing identifiers when the list is empty,
  the message about \<^verbatim>\<open>VITE_API_URL\<close> otherwise.
\<close>

theorem blocked_submission:
  "(text_cves (text_value st) = [] \<or> api_unset (API e) \<longrightarrow>
      requests (enrich v e st) = requests st \<and>
      rows (enrich v e st) = rows st \<and>
      alerts (enrich v e st) =
        alerts st @ [if text_cves (text_value st) = []
                     then ''Please paste at least one CVE (e.g., CVE-2021-44228).''
                     else api_unset_message v]) \<and>
   (\<exists>parsed. parseCSV v txt = Inr parsed \<and>
      (csv_cves parsed = [] \<or> api_unset (API e) \<longrightarrow>
         requests (onUploadCSV v e (Some (Resolves txt)) st) = requests st \<and>
         rows (onUploadCSV v e (Some (Resolves txt)) st) = rows st \<and>
         alerts (onUploadCSV v e (Some (Resolves txt)) st) =
           alerts st @ [if csv_cves parsed = [] then no_cve_id_message v
                        else api_unset_message v]))"
proof -
  have a: "requests (enrich v e st) = requests st \<and>
      rows (enrich v e st) = rows st \<and>
      alerts (enrich v e st) =
        alerts st @ [if text_cves (text_value st) = []
                     then ''Please paste at least one CVE (e.g., CVE-2021-44228).''
                     else api_unset_message v]"
    if "text_cves (text_value st) = [] \<or> api_unset (API e)"
    by (simp add: enrich_def Let_def submit_blocked[OF that] catch_None alert_def)
  obtain parsed where p: "parseCSV v txt = Inr parsed" using parseCSV_total by blast
  have b: "requests (onUploadCSV v e (Some (Resolves txt)) st) = requests st \<and>
         rows (onUploadCSV v e (Some (Resolves txt)) st) = rows st \<and>
         alerts (onUploadCSV v e (Some (Resolves txt)) st) =
           alerts st @ [if csv_cves parsed = [] then no_cve_id_message v
                        else api_unset_message v]"
    if "csv_cves parsed = [] \<or> api_unset (API e)"
    by (simp add: onUploadCSV_def upload_try_def p Let_def submit_blocked[OF that] catch_None
          alert_def)
  from a b p show ?thesis by blast
qed

theorem blocked_submission_witness:
  "requests (enrich Later unconfigured page_with_results) = [] \<and>
   alerts (enrich Later unconfigured page_with_results) = [''VITE_API_URL is not set.''] \<and>
   requests (onUploadCSV Later failing_backend (Some (Resolves ''Asset\<newline>web'')) page_with_results) = [] \<and>
   alerts (onUploadCSV Later failing_backend (Some (Resolves ''Asset\<newline>web'')) page_with_results)
     = [''No CVE_ID values found in CSV.'']"
proof -
  have u: "api_unset (API unconfigured)" by (simp add: unconfigured_def api_unset_def)
  have a: "alerts page_with_results = []" and q: "requests page_with_results = []"
    by (simp_all add: page_with_results_def)
  have p: "parseCSV Later ''Asset\<newline>web'' = Inr parsed \<Longrightarrow> csv_cves parsed = []" for parsed
    by (auto simp: parseCSV_def trim_def isWhiteSpace_def make_record_def csv_cves_def cve_id_def
          new_Set_def)
  from blocked_submission[of page_with_results unconfigured Later "''Asset\<newline>web''"]
  have first: "requests (enrich Later unconfigured page_with_results) = [] \<and>
     alerts (enrich Later unconfigured page_with_results) = [''VITE_API_URL is not set.'']"
    using u example_text_cves by (simp add: a q)
  from blocked_submission[of page_with_results failing_backend Later "''Asset\<newline>web''"]
  have second: "requests (onUploadCSV Later failing_backend (Some (Resolves ''Asset\<newline>web'')) page_with_results) = [] \<and>
     alerts (onUploadCSV Later failing_backend (Some (Resolves ''Asset\<newline>web'')) page_with_results)
       = [''No CVE_ID values found in CSV.'']"
    using p by (auto simp: a q)
  from first second show ?thesis by simp
qed

text \<open>
  C10. For a \<^verbatim>\<open>rows\<close> argument that is missing, \<^verbatim>\<open>undefined\<close> or \<^verbatim>\<open>null\<close>,
  \<^verbatim>\<open>normalizeRows\<close> returns the empty list. So when an OK response decodes to a value
  without a \<^verbatim>\<open>rows\<close> field (or with \<^verbatim>\<open>rows: null\<close>), both handlers set the rows shown
  to the empty list and show no alert.
\<close>

theorem nullish_rows_give_empty_result:
  assumes "nullish rws"
  shows "normalizeRows v rws ow = Inr [] \<and>
     (\<not> api_unset (API e) \<and> ids \<noteq> [] \<and>
      fetch e \<lparr>url = enrich_url (API e), cves = ids\<rparr> = Resolves res \<and>
      ok res \<and> res_json res = Resolves data \<and> \<not> nullish data \<and> get_prop data ''rows'' = rws
      \<longrightarrow>
        (text_cves (text_value st) = ids \<longrightarrow>
           rows (enrich v e st) = [] \<and> alerts (enrich v e st) = alerts st) \<and>
        (\<exists>parsed. parseCSV v txt = Inr parsed \<and>
           (csv_cves parsed = ids \<longrightarrow>
              rows (onUploadCSV v e (Some (Resolves txt)) st) = [] \<and>
              alerts (onUploadCSV v e (Some (Resolves txt)) st) = alerts st)))"
proof -
  have handlers:
    "(text_cves (text_value st) = ids \<longrightarrow>
           rows (enrich v e st) = [] \<and> alerts (enrich v e st) = alerts st) \<and>
        (\<exists>parsed. parseCSV v txt = Inr parsed \<and>
           (csv_cves parsed = ids \<longrightarrow>
              rows (onUploadCSV v e (Some (Resolves txt)) st) = [] \<and>
              alerts (onUploadCSV v e (Some (Resolves txt)) st) = alerts st))"
    if h: "\<not> api_unset (API e)" "ids \<noteq> []"
      "fetch e \<lparr>url = enrich_url (API e), cves = ids\<rparr> = Resolves res"
      "ok res" "res_json res = Resolves data" "\<not> nullish data" "get_prop data ''rows'' = rws"
  proof -
    have n: "nullish (get_prop data ''rows'')" using h(7) assms by simp
    have sub: "submit v s m e ids st' =
        (None, (if s then st'\<lparr>requests := requests st' @ [\<lparr>url = enrich_url (API e), cves = ids\<rparr>],
                               console := console st' @ [LogSample (row_sample data)]\<rparr>
                else st'\<lparr>requests := requests st' @ [\<lparr>url = enrich_url (API e), cves = ids\<rparr>]\<rparr>)
               \<lparr>rows := []\<rparr>)" for s m st'
      using h(1-3) by (simp add: submit_sent show_response_nullish_rows[OF h(4) h(5) h(6) n])
    have a: "rows (enrich v e st) = [] \<and> alerts (enrich v e st) = alerts st"
      if "text_cves (text_value st) = ids"
      using that by (simp add: enrich_def Let_def sub catch_None)
    obtain parsed where p: "parseCSV v txt = Inr parsed" using parseCSV_total by blast
    have b: "rows (onUploadCSV v e (Some (Resolves txt)) st) = [] \<and>
              alerts (onUploadCSV v e (Some (Resolves txt)) st) = alerts st"
      if "csv_cves parsed = ids"
      using that by (simp add: onUploadCSV_def upload_try_def p Let_def sub catch_None)
    from a b p show ?thesis by blast
  qed
  from normalizeRows_nullish[OF assms] handlers show ?thesis by blast
qed

theorem nullish_rows_give_empty_result_witness:
  "normalizeRows Later JUndefined ''team@x.com'' = Inr [] \<and>
   rows (enrich Later rowless_backend page_with_results) = [] \<and>
   alerts (enrich Later rowless_backend page_with_results) = []"
proof -
  let ?ids = "[''CVE-2021-44228'', ''CVE-2021-44228'', ''CVE-2023-4863'']"
  let ?res = "\<lparr>status = 200, statusText = ''OK'',
                 res_text = Resolves ''{}'', res_json = Resolves (JObj [])\<rparr>"
  have n: "nullish JUndefined" by simp
  have h: "\<not> api_unset (API rowless_backend) \<and> ?ids \<noteq> [] \<and>
      fetch rowless_backend \<lparr>url = enrich_url (API rowless_backend), cves = ?ids\<rparr> = Resolves ?res \<and>
      ok ?res \<and> res_json ?res = Resolves (JObj []) \<and> \<not> nullish (JObj []) \<and>
      get_prop (JObj []) ''rows'' = JUndefined"
    by (simp add: rowless_backend_def api_unset_def get_prop_def get_field_def ok_def)
  have a: "alerts page_with_results = []" by (simp add: page_with_results_def)
  from nullish_rows_give_empty_result[OF n, of Later "''team@x.com''" rowless_backend ?ids ?res
      "JObj []" page_with_results "''''"]
  show ?thesis using h example_text_cves a by simp
qed

lemma csv_example3_headers:
  "csv_headers ''CVE_ID\<newline>CVE-2021-44228\<newline>CVE-2021-44228\<newline>\<newline> CVE-2023-4863 '' = [''CVE_ID'']"
  by (simp add: csv_headers_def csv_lines_def trim_def isWhiteSpace_def)

lemma csv_example3_data:
  "csv_data_lines ''CVE_ID\<newline>CVE-2021-44228\<newline>CVE-2021-44228\<newline>\<newline> CVE-2023-4863 '' =
     [''CVE-2021-44228'', ''CVE-2021-44228'', '''', '' CVE-2023-4863'']"
  by (simp add: csv_data_lines_def csv_lines_def trim_def isWhiteSpace_def)

lemma csv_example3_cves:
  "\<exists>parsed. parseCSV Later ''CVE_ID\<newline>CVE-2021-44228\<newline>CVE-2021-44228\<newline>\<newline> CVE-2023-4863 '' = Inr parsed
      \<and> csv_cves parsed = [''CVE-2021-44228'', ''CVE-2023-4863'']"
proof -
  let ?c = "''CVE_ID\<newline>CVE-2021-44228\<newline>CVE-2021-44228\<newline>\<newline> CVE-2023-4863 ''"
  define parsed where "parsed =
    map (\<lambda>line. make_record (csv_headers ?c) (map trim (split_on (CHR '','') line)))
      (csv_data_lines ?c)"
  have eq: "parseCSV Later ?c = Inr parsed"
    by (simp only: parseCSV_eq parsed_def)
  have key: "cve_id (make_record [''CVE_ID''] (map trim cells)) = trim (cell_or_empty cells 0)" for cells
    by (rule cve_id_make_record) auto
  have "map cve_id parsed =
      map (\<lambda>line. trim (cell_or_empty (split_on (CHR '','') line) 0))
        [''CVE-2021-44228'', ''CVE-2021-44228'', '''', '' CVE-2023-4863'']"
    unfolding parsed_def csv_example3_headers csv_example3_data
    by (simp only: map_map comp_def key)
  also have "\<dots> = [''CVE-2021-44228'', ''CVE-2021-44228'', '''', ''CVE-2023-4863'']"
    by (simp add: cell_or_empty_def trim_def isWhiteSpace_def)
  finally have "csv_cves parsed = [''CVE-2021-44228'', ''CVE-2023-4863'']"
    by (simp add: csv_cves_def new_Set_def set_add_def)
  with eq show ?thesis by blast
qed

text \<open>
  C1. The claim is that the identifiers sent with a request are never empty and never
  repeated, and that the free-text input of four lines below is sent as its two distinct
  identifiers. On that input \<^verbatim>\<open>enrich\<close> sends three identifiers, one of them twice: the
  free-text path has no \<^verbatim>\<open>Set\<close>. The CSV path, given the same four lines as a
  \<^verbatim>\<open>CVE_ID\<close> column, sends the two distinct identifiers.
\<close>

theorem free_text_sends_duplicates:
  "map cves (requests (enrich Later failing_backend page_with_results))
     = [[''CVE-2021-44228'', ''CVE-2021-44228'', ''CVE-2023-4863'']] \<and>
   map cves (requests (onUploadCSV Later failing_backend
      (Some (Resolves ''CVE_ID\<newline>CVE-2021-44228\<newline>CVE-2021-44228\<newline>\<newline> CVE-2023-4863 ''))
      page_with_results))
     = [[''CVE-2021-44228'', ''CVE-2023-4863'']]"
proof -
  have q: "requests page_with_results = []" by (simp add: page_with_results_def)
  have u: "\<not> api_unset (API failing_backend)"
    by (simp add: failing_backend_def api_unset_def)
  have f: "\<exists>res. fetch failing_backend req = Resolves res \<and> \<not> ok res" for req
    by (simp add: failing_backend_def ok_def)
  have sub: "map cves (requests (snd (submit Later s m failing_backend ids st))) =
      map cves (requests st) @ [ids]" if "ids \<noteq> []" for s m ids st
  proof -
    obtain res where "fetch failing_backend \<lparr>url = enrich_url (API failing_backend), cves = ids\<rparr>
        = Resolves res" and "\<not> ok res"
      using f by blast
    then show ?thesis using that u by (simp add: submit_sent show_response_not_ok)
  qed
  have c: "requests (catch fb r) = requests (snd r)" for fb r
    by (cases r) (simp add: catch_def alert_def split: option.splits)
  have a: "map cves (requests (enrich Later failing_backend page_with_results))
     = [[''CVE-2021-44228'', ''CVE-2021-44228'', ''CVE-2023-4863'']]"
    by (simp add: enrich_def Let_def c sub example_text_cves q)
  obtain parsed where p1: "parseCSV Later ''CVE_ID\<newline>CVE-2021-44228\<newline>CVE-2021-44228\<newline>\<newline> CVE-2023-4863 '' = Inr parsed"
    and p2: "csv_cves parsed = [''CVE-2021-44228'', ''CVE-2023-4863'']"
    using csv_example3_cves by blast
  have b: "map cves (requests (onUploadCSV Later failing_backend
      (Some (Resolves ''CVE_ID\<newline>CVE-2021-44228\<newline>CVE-2021-44228\<newline>\<newline> CVE-2023-4863 ''))
      page_with_results))
     = [[''CVE-2021-44228'', ''CVE-2023-4863'']]"
    by (simp add: onUploadCSV_def upload_try_def p1 Let_def c sub p2 q)
  from a b show ?thesis by simp
qed

end
